theory Spec2Isabelle
  imports Main "HOL-Library.Word"
begin

unbundle bit_operations_syntax

section \<open>Errors\<close>

text \<open>
  Every failure of the library is a \<open>std::runtime_error\<close> that differs only in its message.
  The model gives each throw site the name the specification uses for it:
  \<^item> \<open>AllocationFailure\<close>: "StackAllocator: Cannot allocate 0 memory for stack." and
    "StackAllocator: Failed to allocate memory.";
  \<^item> \<open>InvalidArgument\<close>: "StackAllocator: Handed null memory pointer.",
    "StackAllocator: Cannot manage 0-byte buffer", "StackAllocator: Buffer too small after
    alignment" and "ObjectPool::ObjectPool: initial size is > size limit.";
  \<^item> \<open>InvalidCheckpoint\<close>: "StackAllocator::restore_checkpoint: Invalid checkpoint";
  \<^item> \<open>PoolExhausted\<close>: "ObjectPool::take: queue is empty.";
  \<^item> \<open>LimitExceeded\<close>: "ObjectPool::add: unable to add as size limit reached.";
  \<^item> \<open>ConstructionFailure\<close>: an exception of the value type's default constructor,
    propagated unchanged.
\<close>

datatype error =
    AllocationFailure
  | InvalidArgument
  | InvalidCheckpoint
  | PoolExhausted
  | LimitExceeded
  | ConstructionFailure

section \<open>ObjectPool (ObjectPool.hpp, ObjectPool.tpp)\<close>

text \<open>
  The template parameters of \<open>ObjectPool<T, AcquirePolicy, ReleasePolicy>\<close>: the value
  type's default constructor \<open>value_type()\<close> (\<open>None\<close> when it throws) and the two hooks.
  A hook takes \<open>T&\<close>, so it may change the object: it is a function on values. Both hooks
  are \<open>noexcept\<close> (the concepts \<open>AcquireHook\<close> and \<open>ReleaseHook\<close> require it), so they
  have no failure branch. Running out of memory inside \<open>std::deque\<close> is outside the
  model.
\<close>

record 'a pool_policy =
  value_type :: "'a option"
  on_acquire :: "'a \<Rightarrow> 'a"
  on_release :: "'a \<Rightarrow> 'a"

text \<open>\<open>NoOpPoolPolicy<U>\<close>: both hooks do nothing; \<open>d\<close> is the default-constructed value.\<close>

definition NoOpPoolPolicy :: "'a \<Rightarrow> 'a pool_policy" where
  "NoOpPoolPolicy d = \<lparr>value_type = Some d, on_acquire = (\<lambda>x. x), on_release = (\<lambda>x. x)\<rparr>"

text \<open>
  The members \<open>objects_\<close> (a \<open>std::deque<T>\<close>, its back is the end of the list) and
  \<open>size_limit_\<close> (a \<open>std::optional<size_type>\<close>). The mutex serialises the operations and
  has no state of its own in a sequential model. Sizes are \<open>nat\<close>: the pool only compares
  them.
\<close>

record 'a object_pool =
  objects :: "'a list"
  size_limit :: "nat option"

definition pool_size :: "'a object_pool \<Rightarrow> nat" where
  "pool_size p = length (objects p)"

definition pool_empty :: "'a object_pool \<Rightarrow> bool" where
  "pool_empty p = (objects p = [])"

definition set_size_limit :: "nat option \<Rightarrow> 'a object_pool \<Rightarrow> 'a object_pool" where
  "set_size_limit limit p = p\<lparr>size_limit := limit\<rparr>"

text \<open>
  The creation loop of the constructor:
  \<open>for (i = 0; i < n; i++) { objects_.emplace_back(value_type()); R::on_release(objects_.back()); }\<close>.
  \<open>None\<close> when the constructor throws part way.
\<close>

fun create_objects :: "'a pool_policy \<Rightarrow> nat \<Rightarrow> 'a list \<Rightarrow> 'a list option" where
  "create_objects pol 0 objs = Some objs"
| "create_objects pol (Suc n) objs =
     (case value_type pol of
        None \<Rightarrow> None
      | Some v \<Rightarrow> create_objects pol n (objs @ [on_release pol v]))"

text \<open>\<open>ObjectPool(size_type init_size, std::optional<size_type> limit)\<close>.\<close>

definition ObjectPool_ctor ::
  "'a pool_policy \<Rightarrow> nat \<Rightarrow> nat option \<Rightarrow> error + 'a object_pool" where
  "ObjectPool_ctor pol init_size limit =
     (if limit \<noteq> None \<and> init_size > the limit then Inl InvalidArgument
      else
        let size_limit' = (if limit \<noteq> None \<and> the limit = 0 then None else limit)
        in case create_objects pol init_size [] of
             None \<Rightarrow> Inl ConstructionFailure
           | Some objs \<Rightarrow> Inr \<lparr>objects = objs, size_limit = size_limit'\<rparr>)"

text \<open>\<open>ObjectPool(queue_type&& src)\<close>: adopts the queue, no limit.\<close>

definition ObjectPool_from_queue :: "'a list \<Rightarrow> 'a object_pool" where
  "ObjectPool_from_queue src = \<lparr>objects = src, size_limit = None\<rparr>"

text \<open>
  A member function returns its result (or the error it throws) together with the pool
  as it is afterwards.
\<close>

definition ObjectPool_take ::
  "'a pool_policy \<Rightarrow> 'a object_pool \<Rightarrow> (error + 'a) \<times> 'a object_pool" where
  "ObjectPool_take pol p =
     (if objects p = [] then (Inl PoolExhausted, p)
      else (Inr (on_acquire pol (last (objects p))), p\<lparr>objects := butlast (objects p)\<rparr>))"

definition ObjectPool_try_take ::
  "'a pool_policy \<Rightarrow> 'a object_pool \<Rightarrow> 'a option \<times> 'a object_pool" where
  "ObjectPool_try_take pol p =
     (if objects p = [] then (None, p)
      else (Some (on_acquire pol (last (objects p))), p\<lparr>objects := butlast (objects p)\<rparr>))"

text \<open>The test both \<open>add\<close> and \<open>try_add\<close> start with:
  \<open>size_limit_.has_value() && objects_.size() >= size_limit_.value()\<close>.\<close>

definition at_limit :: "'a object_pool \<Rightarrow> bool" where
  "at_limit p = (size_limit p \<noteq> None \<and> length (objects p) \<ge> the (size_limit p))"

definition ObjectPool_add ::
  "'a pool_policy \<Rightarrow> 'a \<Rightarrow> 'a object_pool \<Rightarrow> (error + unit) \<times> 'a object_pool" where
  "ObjectPool_add pol back p =
     (if at_limit p then (Inl LimitExceeded, p)
      else (Inr (), p\<lparr>objects := objects p @ [on_release pol back]\<rparr>))"

text \<open>
  \<open>try_add\<close>: the \<open>catch (...)\<close> around the hook and \<open>push_back\<close> has nothing to catch
  in the model (the hook is \<open>noexcept\<close>, memory does not run out).
\<close>

definition ObjectPool_try_add ::
  "'a pool_policy \<Rightarrow> 'a \<Rightarrow> 'a object_pool \<Rightarrow> bool \<times> 'a object_pool" where
  "ObjectPool_try_add pol back p =
     (if at_limit p then (False, p)
      else (True, p\<lparr>objects := objects p @ [on_release pol back]\<rparr>))"

text \<open>
  \<open>reserve_impl<ThrowOnError>\<close>, and with it \<open>reserve\<close> and \<open>try_reserve\<close>, has no
  definition here. Its body calls \<open>objects_.reserve(target_size)\<close> (ObjectPool.tpp, the
  line after \<open>to_create\<close> is computed), and \<open>objects_\<close> is a \<open>std::deque<T>\<close>, which has
  no member \<open>reserve\<close>. The call stands outside every \<open>if constexpr\<close>, so each
  instantiation of the function template is ill-formed, whatever \<open>target_size\<close> is: no
  program that calls \<open>reserve\<close> or \<open>try_reserve\<close> compiles, and the branches of the body
  (among them the ones for a zero target) describe no behaviour that the code can show.
\<close>

subsection \<open>PoolLease\<close>

text \<open>
  The members \<open>obj_\<close> and \<open>active_\<close>; the pool the lease points to (\<open>pool_\<close>) is passed
  to the operations.
\<close>

record 'a pool_lease =
  obj :: 'a
  active :: bool

text \<open>\<open>PoolLease(Pool& p) : pool_(&p), obj_(p.take())\<close>.\<close>

definition PoolLease_ctor ::
  "'a pool_policy \<Rightarrow> 'a object_pool \<Rightarrow> (error + 'a pool_lease) \<times> 'a object_pool" where
  "PoolLease_ctor pol p =
     (case ObjectPool_take pol p of
        (Inl e, p') \<Rightarrow> (Inl e, p')
      | (Inr v, p') \<Rightarrow> (Inr \<lparr>obj = v, active = True\<rparr>, p'))"

text \<open>
  How a destructor call ends: it returns (\<open>Done\<close>, with the pool as it is afterwards),
  or an exception leaves it (\<open>Thrown\<close>), or the program is ended by \<open>std::terminate\<close>
  (\<open>Terminate\<close>: nothing runs afterwards, there is no pool to speak of).
\<close>

datatype 'a dtor_result = Done "'a object_pool" | Thrown error "'a object_pool" | Terminate

text \<open>
  \<open>~PoolLease() { if (active_) pool_->add(std::move(obj_)); }\<close>. The destructor is
  declared without an exception specification, so it is \<open>noexcept\<close> unless the destructor
  of a member is \<open>noexcept(false)\<close>; the only member of class type is \<open>obj_\<close>. The
  parameter \<open>nothrow_destructible\<close> is \<open>std::is_nothrow_destructible_v<value_type>\<close>: true of
  every type that does not declare its destructor \<open>noexcept(false)\<close>, in particular of
  the built-in types and of \<open>Object\<close> in main.cpp. An exception that \<open>add\<close> throws inside
  a \<open>noexcept\<close> destructor cannot leave it: the runtime calls \<open>std::terminate\<close>.
  (A destructor that runs while another exception unwinds the stack is outside the model.)
\<close>

definition PoolLease_dtor ::
  "bool \<Rightarrow> 'a pool_policy \<Rightarrow> 'a pool_lease \<Rightarrow> 'a object_pool \<Rightarrow> 'a dtor_result" where
  "PoolLease_dtor nothrow_destructible pol l p =
     (if active l then
        (case ObjectPool_add pol (obj l) p of
           (Inl e, p') \<Rightarrow> (if nothrow_destructible then Terminate else Thrown e p')
         | (Inr u, p') \<Rightarrow> Done p')
      else Done p)"

text \<open>\<open>release()\<close>: deactivates the lease and hands the object out.\<close>

definition PoolLease_release :: "'a pool_lease \<Rightarrow> 'a \<times> 'a pool_lease" where
  "PoolLease_release l = (obj l, l\<lparr>active := False\<rparr>)"

section \<open>Alignment helpers (Alignment.hpp)\<close>

text \<open>
  \<open>std::uintptr_t\<close> and \<open>std::size_t\<close> are 64-bit unsigned integers: addition and
  subtraction wrap around, as they do on words.
\<close>

type_synonym marker_type = "64 word"
type_synonym size_type = "64 word"

definition align_address :: "marker_type \<Rightarrow> size_type \<Rightarrow> marker_type" where
  "align_address addr alignment = (addr + alignment - 1) AND NOT (alignment - 1)"

definition is_aligned :: "marker_type \<Rightarrow> size_type \<Rightarrow> bool" where
  "is_aligned addr alignment = (addr AND (alignment - 1) = 0)"

definition is_power_of_two :: "size_type \<Rightarrow> bool" where
  "is_power_of_two v = (v \<noteq> 0 \<and> v AND (v - 1) = 0)"

section \<open>StackAllocator (StackAllocator.hpp, StackAllocator.cpp)\<close>

text \<open>The members \<open>start_marker_\<close>, \<open>active_marker_\<close>, \<open>capacity_\<close> and \<open>owns_memory_\<close>.\<close>

record stack_allocator =
  start_marker :: marker_type
  active_marker :: marker_type
  capacity :: size_type
  owns_memory :: bool

text \<open>
  \<open>StackAllocator(size_type capacity)\<close>. The pointer \<open>std::malloc\<close> returns is the
  argument \<open>memory\<close>; the null pointer is \<open>0\<close>.
\<close>

definition StackAllocator_ctor :: "size_type \<Rightarrow> marker_type \<Rightarrow> error + stack_allocator" where
  "StackAllocator_ctor cap memory =
     (if cap = 0 then Inl AllocationFailure
      else if memory = 0 then Inl AllocationFailure
      else Inr \<lparr>start_marker = memory, active_marker = memory, capacity = cap,
                owns_memory = True\<rparr>)"

text \<open>
  \<open>StackAllocator(void* memory, size_type size)\<close>. \<open>alignof(std::max_align_t)\<close> is a
  constant of the platform (16 on x86-64 and AArch64 Linux); it is the parameter
  \<open>max_align\<close>, which is also the value of \<open>min_usable_space\<close>.
\<close>

definition StackAllocator_ctor_buffer ::
  "size_type \<Rightarrow> marker_type \<Rightarrow> size_type \<Rightarrow> error + stack_allocator" where
  "StackAllocator_ctor_buffer max_align memory sz =
     (if memory = 0 then Inl InvalidArgument
      else if sz = 0 then Inl InvalidArgument
      else
        let min_usable_space = max_align;
            addr = memory;
            start = align_address addr max_align;
            offset = start - addr
        in if offset \<noteq> 0 \<and> offset + min_usable_space \<ge> sz then Inl InvalidArgument
           else Inr \<lparr>start_marker = start, active_marker = start, capacity = sz - offset,
                     owns_memory = False\<rparr>)"

text \<open>
  \<open>alloc(size, alignment)\<close> is \<open>noexcept\<close> and returns a pointer, \<open>nullptr\<close> (the
  word \<open>0\<close>) on failure; the allocator afterwards is the second component.
\<close>

definition alloc ::
  "stack_allocator \<Rightarrow> size_type \<Rightarrow> size_type \<Rightarrow> marker_type \<times> stack_allocator" where
  "alloc a sz alignment =
     (if sz = 0 \<or> sz > capacity a then (0, a)
      else if \<not> is_power_of_two alignment \<or> alignment > capacity a then (0, a)
      else
        let aligned_pos = align_address (active_marker a) alignment;
            last_valid_start_pos = (start_marker a + capacity a) - sz
        in if aligned_pos < start_marker a \<or> aligned_pos > last_valid_start_pos then (0, a)
           else (aligned_pos, a\<lparr>active_marker := aligned_pos + sz\<rparr>))"

definition save_checkpoint :: "stack_allocator \<Rightarrow> marker_type" where
  "save_checkpoint a = active_marker a"

definition restore_checkpoint ::
  "stack_allocator \<Rightarrow> marker_type \<Rightarrow> (error + unit) \<times> stack_allocator" where
  "restore_checkpoint a checkpoint =
     (if checkpoint < start_marker a \<or> checkpoint > start_marker a + capacity a
      then (Inl InvalidCheckpoint, a)
      else (Inr (), a\<lparr>active_marker := checkpoint\<rparr>))"

definition bytes_used :: "stack_allocator \<Rightarrow> size_type" where
  "bytes_used a = active_marker a - start_marker a"

definition bytes_remaining :: "stack_allocator \<Rightarrow> size_type" where
  "bytes_remaining a = capacity a - bytes_used a"

definition reset :: "stack_allocator \<Rightarrow> stack_allocator" where
  "reset a = a\<lparr>active_marker := start_marker a\<rparr>"

section \<open>Vocabulary of the properties\<close>

text \<open>
  A run of the allocator: the calls a client makes, in order. A \<open>restore_checkpoint\<close>
  that throws leaves the allocator as it was and the run goes on (the client caught the
  exception). The run returns the blocks handed out (pointer, size, alignment), in order,
  and the allocator at the end.
\<close>

datatype arena_op = Alloc size_type size_type | Reset | Restore marker_type

fun run_arena ::
  "stack_allocator \<Rightarrow> arena_op list \<Rightarrow>
     (marker_type \<times> size_type \<times> size_type) list \<times> stack_allocator"
where
  "run_arena a [] = ([], a)"
| "run_arena a (Alloc sz alignment # ops) =
     (case alloc a sz alignment of
        (p, a') \<Rightarrow>
          (case run_arena a' ops of
             (rs, a'') \<Rightarrow> (if p = 0 then rs else (p, sz, alignment) # rs, a'')))"
| "run_arena a (Reset # ops) = run_arena (reset a) ops"
| "run_arena a (Restore checkpoint # ops) =
     run_arena (snd (restore_checkpoint a checkpoint)) ops"

text \<open>
  The invariant of the data model, \<open>base \<le> cursor \<le> base + capacity\<close>, with the
  comparisons of the code.
\<close>

definition in_bounds :: "stack_allocator \<Rightarrow> bool" where
  "in_bounds a = (start_marker a \<le> active_marker a \<and>
                  active_marker a \<le> start_marker a + capacity a)"

text \<open>
  An allocator over a real buffer: the buffer does not start at the null pointer, its
  one-past-the-end address \<open>base + capacity\<close> is an address (the sum does not wrap
  around), and the cursor is in bounds. Both constructors establish this for a buffer
  that lies in the address space (lemmas \<open>ctor_arena_ok\<close> and \<open>ctor_buffer_arena_ok\<close>).
\<close>

definition arena_ok :: "stack_allocator \<Rightarrow> bool" where
  "arena_ok a = (start_marker a \<noteq> 0 \<and>
                 unat (start_marker a) + unat (capacity a) < 2 ^ 64 \<and>
                 in_bounds a)"

text \<open>
  A block \<open>[p, p + sz)\<close> handed out for \<open>alignment\<close>: the alignment is a power of
  two, \<open>p % alignment == 0\<close>, and the block lies within \<open>[base, base + capacity)\<close>
  (the upper bound in natural numbers, so that it cannot hide a wrap-around).
\<close>

fun block_ok :: "stack_allocator \<Rightarrow> marker_type \<times> size_type \<times> size_type \<Rightarrow> bool" where
  "block_ok a (p, sz, alignment) =
     (is_power_of_two alignment \<and> p mod alignment = 0 \<and> start_marker a \<le> p \<and>
      unat p + unat sz \<le> unat (start_marker a) + unat (capacity a))"

text \<open>
  The aligned address as a natural number: the least multiple of \<open>n\<close> that is not below
  \<open>x\<close>. This is what \<open>(x + n - 1) & ~(n - 1)\<close> denotes when nothing wraps around; the
  properties are stated with it, and \<open>align_address\<close> is proved to compute it.
\<close>

definition align_up_nat :: "nat \<Rightarrow> nat \<Rightarrow> nat" where
  "align_up_nat x n = ((x + n - 1) div n) * n"

text \<open>
  The third failure condition of the buffer constructor as the specification words it,
  "the buffer is too small to hold a minimally aligned region after adjustment": fewer
  than \<open>max_align\<close> bytes remain behind the aligned start.
\<close>

definition too_small_for_aligned_region ::
  "size_type \<Rightarrow> marker_type \<Rightarrow> size_type \<Rightarrow> bool" where
  "too_small_for_aligned_region max_align memory sz =
     (unat sz < (align_up_nat (unat memory) (unat max_align) - unat memory) + unat max_align)"

section \<open>Pool properties\<close>

text \<open>
  C1. The claim: a limit of exactly zero means "unlimited", so constructing the pool with
  any \<open>init_size\<close> and \<open>limit = 0\<close> succeeds and leaves no size limit. The
  constructor compares \<open>init_size\<close> with the limit before it turns the zero into "no
  limit", so with \<open>limit = 0\<close> every non-zero \<open>init_size\<close> is refused with
  \<open>InvalidArgument\<close>; only \<open>init_size = 0\<close> reaches the line that treats zero as
  unlimited. The same request without a limit succeeds.
\<close>

theorem C1_zero_limit_rejected:
  "ObjectPool_ctor pol (Suc n) (Some 0) = Inl InvalidArgument \<and>
   ObjectPool_ctor (NoOpPoolPolicy (0::nat)) 1 (Some 0) = Inl InvalidArgument \<and>
   ObjectPool_ctor (NoOpPoolPolicy (0::nat)) 1 None =
     Inr \<lparr>objects = [0], size_limit = None\<rparr> \<and>
   ObjectPool_ctor pol 0 (Some 0) = Inr \<lparr>objects = [], size_limit = None\<rparr>"
  by (simp add: ObjectPool_ctor_def NoOpPoolPolicy_def)

lemma create_objects_length:
  "value_type pol = Some d \<Longrightarrow>
   create_objects pol n objs = Some (objs @ replicate n (on_release pol d))"
  by (induction n arbitrary: objs) (simp_all add: replicate_app_Cons_same)

text \<open>
  C2 as stated: from a pool built with \<open>initial_size = 3\<close> and \<open>limit = 5\<close>, three
  further \<open>add\<close> calls all succeed and only the fourth fails. The pool reaches its
  limit after two: the third \<open>add\<close> already raises \<open>LimitExceeded\<close>.
\<close>

theorem C2_counterexample:
  "ObjectPool_ctor (NoOpPoolPolicy (0::nat)) 3 (Some 5)
     = Inr \<lparr>objects = [0, 0, 0], size_limit = Some 5\<rparr> \<and>
   ObjectPool_add (NoOpPoolPolicy 0) 1 \<lparr>objects = [0, 0, 0], size_limit = Some 5\<rparr>
     = (Inr (), \<lparr>objects = [0, 0, 0, 1], size_limit = Some 5\<rparr>) \<and>
   ObjectPool_add (NoOpPoolPolicy 0) 2 \<lparr>objects = [0, 0, 0, 1], size_limit = Some 5\<rparr>
     = (Inr (), \<lparr>objects = [0, 0, 0, 1, 2], size_limit = Some 5\<rparr>) \<and>
   ObjectPool_add (NoOpPoolPolicy 0) 3 \<lparr>objects = [0, 0, 0, 1, 2], size_limit = Some 5\<rparr>
     = (Inl LimitExceeded, \<lparr>objects = [0, 0, 0, 1, 2], size_limit = Some 5\<rparr>)"
  by (simp add: ObjectPool_ctor_def NoOpPoolPolicy_def ObjectPool_add_def at_limit_def
        numeral_3_eq_3)

text \<open>
  C2, amended. For a pool constructed with \<open>initial_size = 3\<close> and \<open>limit = 5\<close> (the
  default constructor of the value type not throwing), each of the next two \<open>add\<close> calls
  succeeds and the third attempt fails: \<open>add\<close> raises \<open>LimitExceeded\<close>, \<open>try_add\<close>
  returns false, and either way the pool is left unchanged at size 5.
\<close>

theorem C2_pool_limit:
  assumes "value_type pol = Some d"
  shows "\<exists>p0 p1 p2.
           ObjectPool_ctor pol 3 (Some 5) = Inr p0 \<and> pool_size p0 = 3 \<and>
           ObjectPool_add pol x1 p0 = (Inr (), p1) \<and> pool_size p1 = 4 \<and>
           ObjectPool_add pol x2 p1 = (Inr (), p2) \<and> pool_size p2 = 5 \<and>
           ObjectPool_add pol x3 p2 = (Inl LimitExceeded, p2) \<and>
           ObjectPool_try_add pol x3 p2 = (False, p2)"
  using assms
  by (simp add: ObjectPool_ctor_def create_objects_length ObjectPool_add_def
        ObjectPool_try_add_def at_limit_def pool_size_def)

theorem C2_pool_limit_witness:
  "value_type (NoOpPoolPolicy (0::nat)) = Some 0 \<and>
   (\<exists>p0 p1 p2.
      ObjectPool_ctor (NoOpPoolPolicy (0::nat)) 3 (Some 5) = Inr p0 \<and> pool_size p0 = 3 \<and>
      ObjectPool_add (NoOpPoolPolicy 0) 7 p0 = (Inr (), p1) \<and> pool_size p1 = 4 \<and>
      ObjectPool_add (NoOpPoolPolicy 0) 8 p1 = (Inr (), p2) \<and> pool_size p2 = 5 \<and>
      ObjectPool_add (NoOpPoolPolicy 0) 9 p2 = (Inl LimitExceeded, p2) \<and>
      ObjectPool_try_add (NoOpPoolPolicy 0) 9 p2 = (False, p2))"
proof -
  have h: "value_type (NoOpPoolPolicy (0::nat)) = Some 0" by (simp add: NoOpPoolPolicy_def)
  from C2_pool_limit [OF h, of 7 8 9] h show ?thesis by blast
qed

text \<open>
  C8 as stated: for every pool of size \<open>n \<ge> 1\<close>, an \<open>add\<close> after a \<open>take\<close> leaves
  size \<open>n\<close>. A pool whose limit was lowered below its size (\<open>set_size_limit\<close> does not
  evict) refuses the \<open>add\<close>: the queue \<open>[1, 2]\<close> with the limit set to 1 has size 2,
  \<open>take\<close> yields 2 and leaves size 1, and the \<open>add\<close> raises \<open>LimitExceeded\<close>, so the
  size stays 1.
\<close>

theorem C8_counterexample:
  "pool_size (set_size_limit (Some 1) (ObjectPool_from_queue [1, 2::nat])) = 2 \<and>
   ObjectPool_take (NoOpPoolPolicy 0) (set_size_limit (Some 1) (ObjectPool_from_queue [1, 2]))
     = (Inr 2, \<lparr>objects = [1], size_limit = Some 1\<rparr>) \<and>
   ObjectPool_add (NoOpPoolPolicy 0) 2 \<lparr>objects = [1], size_limit = Some 1\<rparr>
     = (Inl LimitExceeded, \<lparr>objects = [1], size_limit = Some 1\<rparr>) \<and>
   pool_size \<lparr>objects = [1::nat], size_limit = Some 1\<rparr> = 1"
  by (simp add: pool_size_def set_size_limit_def ObjectPool_from_queue_def ObjectPool_take_def
        ObjectPool_add_def at_limit_def NoOpPoolPolicy_def)

text \<open>
  C8, amended. For every pool of size \<open>n \<ge> 1\<close>, \<open>take\<close> removes the item at the back
  (the most recently added one) and returns it as the acquire hook leaves it, and the size
  becomes \<open>n - 1\<close>; \<open>take\<close> raises \<open>PoolExhausted\<close> exactly when the pool is empty.
  An \<open>add\<close> after that \<open>take\<close> leaves size \<open>n\<close> when the pool has no limit or
  \<open>n\<close> does not exceed the limit, and the next \<open>take\<close> then returns the item just added
  (as the release and acquire hooks leave it, which is the item itself under
  \<open>NoOpPoolPolicy\<close>) and restores the pool; when \<open>n\<close> exceeds the limit the \<open>add\<close>
  raises \<open>LimitExceeded\<close> and the size stays \<open>n - 1\<close>. The \<open>take\<close> leaves the other
  items and the limit as they were.
\<close>

theorem C8_pool_lifo:
  assumes "pool_size p \<ge> 1"
  shows "\<exists>p'. ObjectPool_take pol p = (Inr (on_acquire pol (last (objects p))), p') \<and>
              p' = p\<lparr>objects := butlast (objects p)\<rparr> \<and>
              pool_size p' = pool_size p - 1 \<and>
              (if size_limit p = None \<or> pool_size p \<le> the (size_limit p)
               then \<exists>p''. ObjectPool_add pol x p' = (Inr (), p'') \<and>
                         pool_size p'' = pool_size p \<and>
                         ObjectPool_take pol p'' = (Inr (on_acquire pol (on_release pol x)), p')
               else ObjectPool_add pol x p' = (Inl LimitExceeded, p')) \<and>
              (\<forall>q. fst (ObjectPool_take pol q) = Inl PoolExhausted \<longleftrightarrow> pool_size q = 0) \<and>
              on_acquire (NoOpPoolPolicy d) (on_release (NoOpPoolPolicy d) x) = x"
proof -
  from assms have ne: "objects p \<noteq> []" by (auto simp: pool_size_def)
  let ?p' = "p\<lparr>objects := butlast (objects p)\<rparr>"
  have t: "ObjectPool_take pol p = (Inr (on_acquire pol (last (objects p))), ?p')"
    using ne by (simp add: ObjectPool_take_def)
  have s: "pool_size ?p' = pool_size p - 1" by (simp add: pool_size_def)
  have e: "fst (ObjectPool_take pol q) = Inl PoolExhausted \<longleftrightarrow> pool_size q = 0" for q
    by (simp add: ObjectPool_take_def pool_size_def)
  have a: "(if size_limit p = None \<or> pool_size p \<le> the (size_limit p)
               then \<exists>p''. ObjectPool_add pol x ?p' = (Inr (), p'') \<and>
                         pool_size p'' = pool_size p \<and>
                         ObjectPool_take pol p'' = (Inr (on_acquire pol (on_release pol x)), ?p')
               else ObjectPool_add pol x ?p' = (Inl LimitExceeded, ?p'))"
  proof (cases "size_limit p = None \<or> pool_size p \<le> the (size_limit p)")
    case True
    then have nl: "\<not> at_limit ?p'"
      using assms by (auto simp: at_limit_def pool_size_def)
    let ?p'' = "?p'\<lparr>objects := objects ?p' @ [on_release pol x]\<rparr>"
    have 1: "ObjectPool_add pol x ?p' = (Inr (), ?p'')"
      using nl by (simp add: ObjectPool_add_def)
    have 2: "pool_size ?p'' = pool_size p"
      using ne by (simp add: pool_size_def)
    have 3: "ObjectPool_take pol ?p'' = (Inr (on_acquire pol (on_release pol x)), ?p')"
      by (simp add: ObjectPool_take_def)
    from 1 2 3 have "\<exists>p''. ObjectPool_add pol x ?p' = (Inr (), p'') \<and>
                         pool_size p'' = pool_size p \<and>
                         ObjectPool_take pol p'' = (Inr (on_acquire pol (on_release pol x)), ?p')"
      by (intro exI [of _ ?p''] conjI)
    with True show ?thesis by (simp only: if_True)
  next
    case False
    then have "at_limit ?p'"
      using assms by (auto simp: at_limit_def pool_size_def)
    then have "ObjectPool_add pol x ?p' = (Inl LimitExceeded, ?p')"
      by (simp add: ObjectPool_add_def)
    with False show ?thesis by (simp only: if_False)
  qed
  have n: "on_acquire (NoOpPoolPolicy d) (on_release (NoOpPoolPolicy d) x) = x"
    by (simp add: NoOpPoolPolicy_def)
  show ?thesis
    by (intro exI [of _ ?p'] conjI allI) (rule t refl s a e n)+
qed

theorem C8_pool_lifo_witness:
  "pool_size \<lparr>objects = [CHR ''A''], size_limit = None\<rparr> \<ge> 1 \<and>
   ObjectPool_add (NoOpPoolPolicy CHR ''D'') CHR ''B'' \<lparr>objects = [CHR ''A''], size_limit = None\<rparr>
     = (Inr (), \<lparr>objects = [CHR ''A'', CHR ''B''], size_limit = None\<rparr>) \<and>
   (\<exists>p'. ObjectPool_take (NoOpPoolPolicy CHR ''D'')
            \<lparr>objects = [CHR ''A'', CHR ''B''], size_limit = None\<rparr> = (Inr CHR ''B'', p') \<and>
         pool_size p' = 1 \<and>
         (\<exists>p''. ObjectPool_add (NoOpPoolPolicy CHR ''D'') CHR ''C'' p' = (Inr (), p'') \<and>
                pool_size p'' = 2))"
proof -
  let ?pol = "NoOpPoolPolicy CHR ''D''"
  let ?p = "\<lparr>objects = [CHR ''A'', CHR ''B''], size_limit = None\<rparr>"
  have h: "pool_size ?p \<ge> 1" by (simp add: pool_size_def)
  have a: "ObjectPool_add ?pol CHR ''B'' \<lparr>objects = [CHR ''A''], size_limit = None\<rparr>
             = (Inr (), ?p)"
    by (simp add: ObjectPool_add_def at_limit_def NoOpPoolPolicy_def)
  from C8_pool_lifo [OF h, of ?pol "CHR ''C''" "CHR ''D''"]
  obtain p' where t: "ObjectPool_take ?pol ?p = (Inr (on_acquire ?pol (last (objects ?p))), p')"
    and s: "pool_size p' = pool_size ?p - 1"
    and c: "\<exists>p''. ObjectPool_add ?pol CHR ''C'' p' = (Inr (), p'') \<and> pool_size p'' = pool_size ?p"
    by auto
  have "on_acquire ?pol (last (objects ?p)) = CHR ''B''" by (simp add: NoOpPoolPolicy_def)
  with t have t': "ObjectPool_take ?pol ?p = (Inr CHR ''B'', p')" by simp
  from s have s': "pool_size p' = 1" by (simp add: pool_size_def)
  from c have c': "\<exists>p''. ObjectPool_add ?pol CHR ''C'' p' = (Inr (), p'') \<and> pool_size p'' = 2"
    by (simp add: pool_size_def numeral_2_eq_2)
  have g: "pool_size \<lparr>objects = [CHR ''A''], size_limit = None\<rparr> \<ge> 1"
    by (simp add: pool_size_def)
  from t' s' c'
  have e: "\<exists>p'. ObjectPool_take ?pol ?p = (Inr CHR ''B'', p') \<and> pool_size p' = 1 \<and>
            (\<exists>p''. ObjectPool_add ?pol CHR ''C'' p' = (Inr (), p'') \<and> pool_size p'' = 2)"
    by blast
  from g a e show ?thesis by (intro conjI)
qed

text \<open>
  C9 (\<open>reserve(0)\<close> raises, \<open>try_reserve(0)\<close> returns true) has no theorem:
  \<open>reserve_impl\<close> cannot be instantiated, as explained where the pool is defined, so
  neither call exists in a program that compiles.
\<close>

text \<open>
  C10 as stated: when the pool is at its size limit at lease destruction, the automatic
  return fails by raising \<open>LimitExceeded\<close> from the destructor. For a value type with
  an ordinary (\<open>noexcept\<close>) destructor the exception does not come out of the destructor:
  in the scenario pool of one item with limit 1, a lease takes the item, an item is
  added in the meantime, the lease is destroyed, the program is terminated.
\<close>

theorem C10_counterexample:
  "ObjectPool_ctor (NoOpPoolPolicy (0::nat)) 1 (Some 1)
     = Inr \<lparr>objects = [0], size_limit = Some 1\<rparr> \<and>
   PoolLease_ctor (NoOpPoolPolicy (0::nat)) \<lparr>objects = [0], size_limit = Some 1\<rparr>
     = (Inr \<lparr>obj = 0, active = True\<rparr>, \<lparr>objects = [], size_limit = Some 1\<rparr>) \<and>
   ObjectPool_add (NoOpPoolPolicy (0::nat)) 5 \<lparr>objects = [], size_limit = Some 1\<rparr>
     = (Inr (), \<lparr>objects = [5], size_limit = Some 1\<rparr>) \<and>
   PoolLease_dtor True (NoOpPoolPolicy (0::nat)) \<lparr>obj = 0, active = True\<rparr>
       \<lparr>objects = [5], size_limit = Some 1\<rparr> = Terminate \<and>
   PoolLease_dtor True (NoOpPoolPolicy (0::nat)) \<lparr>obj = 0, active = True\<rparr>
       \<lparr>objects = [5], size_limit = Some 1\<rparr>
     \<noteq> Thrown LimitExceeded \<lparr>objects = [5], size_limit = Some 1\<rparr>"
  by (simp add: ObjectPool_ctor_def PoolLease_ctor_def ObjectPool_take_def ObjectPool_add_def
        PoolLease_dtor_def at_limit_def NoOpPoolPolicy_def)

text \<open>
  C10, amended. Destroying a lease that is still active calls the pool's throwing
  \<open>add\<close> (not \<open>try_add\<close>) on the leased item; an inactive lease does nothing. When the
  pool is below its limit (or has none) the item goes back through the release hook.
  When the pool is at or above its size limit at that moment, \<open>add\<close> raises
  \<open>LimitExceeded\<close> inside the destructor (where \<open>try_add\<close> would have returned false)
  and the item is not returned: for a value type whose destructor is \<open>noexcept\<close> the
  program ends in \<open>std::terminate\<close>, and only for a value type whose destructor is
  \<open>noexcept(false)\<close> does \<open>LimitExceeded\<close> leave the destructor, with the pool
  unchanged. The automatic return is therefore not guaranteed to succeed.
\<close>

theorem C10_lease_return_can_fail:
  "PoolLease_dtor nd pol l p =
     (if active l then
        (case ObjectPool_add pol (obj l) p of
           (Inl e, p') \<Rightarrow> (if nd then Terminate else Thrown e p')
         | (Inr u, p') \<Rightarrow> Done p')
      else Done p) \<and>
   PoolLease_dtor nd pol l p =
     (if \<not> active l then Done p
      else if at_limit p then (if nd then Terminate else Thrown LimitExceeded p)
      else Done (p\<lparr>objects := objects p @ [on_release pol (obj l)]\<rparr>)) \<and>
   (if at_limit p
    then ObjectPool_add pol (obj l) p = (Inl LimitExceeded, p) \<and>
         ObjectPool_try_add pol (obj l) p = (False, p)
    else ObjectPool_add pol (obj l) p
           = (Inr (), p\<lparr>objects := objects p @ [on_release pol (obj l)]\<rparr>)) \<and>
   at_limit p = (size_limit p \<noteq> None \<and> the (size_limit p) \<le> pool_size p)"
  by (simp add: PoolLease_dtor_def ObjectPool_add_def ObjectPool_try_add_def at_limit_def
        pool_size_def)

theorem C10_lease_return_can_fail_witness:
  "PoolLease_dtor True (NoOpPoolPolicy (0::nat)) \<lparr>obj = 0, active = True\<rparr>
       \<lparr>objects = [5], size_limit = Some 1\<rparr> = Terminate \<and>
   PoolLease_dtor False (NoOpPoolPolicy (0::nat)) \<lparr>obj = 0, active = True\<rparr>
       \<lparr>objects = [5], size_limit = Some 1\<rparr>
     = Thrown LimitExceeded \<lparr>objects = [5], size_limit = Some 1\<rparr> \<and>
   PoolLease_dtor True (NoOpPoolPolicy (0::nat)) \<lparr>obj = 0, active = True\<rparr>
       \<lparr>objects = [5], size_limit = Some 2\<rparr>
     = Done \<lparr>objects = [5, 0], size_limit = Some 2\<rparr> \<and>
   PoolLease_dtor True (NoOpPoolPolicy (0::nat)) \<lparr>obj = 0, active = False\<rparr>
       \<lparr>objects = [5], size_limit = Some 1\<rparr>
     = Done \<lparr>objects = [5], size_limit = Some 1\<rparr>"
proof -
  let ?pol = "NoOpPoolPolicy (0::nat)"
  let ?l = "\<lparr>obj = 0::nat, active = True\<rparr>"
  let ?p = "\<lparr>objects = [5::nat], size_limit = Some 1\<rparr>"
  let ?q = "\<lparr>objects = [5::nat], size_limit = Some 2\<rparr>"
  from C10_lease_return_can_fail [of True ?pol ?l ?p, THEN conjunct2, THEN conjunct1]
  have 1: "PoolLease_dtor True ?pol ?l ?p = Terminate"
    by (simp add: at_limit_def)
  from C10_lease_return_can_fail [of False ?pol ?l ?p, THEN conjunct2, THEN conjunct1]
  have 2: "PoolLease_dtor False ?pol ?l ?p = Thrown LimitExceeded ?p"
    by (simp add: at_limit_def)
  from C10_lease_return_can_fail [of True ?pol ?l ?q, THEN conjunct2, THEN conjunct1]
  have 3: "PoolLease_dtor True ?pol ?l ?q = Done \<lparr>objects = [5, 0], size_limit = Some 2\<rparr>"
    by (simp add: at_limit_def NoOpPoolPolicy_def)
  from C10_lease_return_can_fail [of True ?pol "\<lparr>obj = 0::nat, active = False\<rparr>" ?p,
      THEN conjunct2, THEN conjunct1]
  have 4: "PoolLease_dtor True ?pol \<lparr>obj = 0::nat, active = False\<rparr> ?p = Done ?p"
    by simp
  from 1 2 3 4 show ?thesis by (intro conjI)
qed

section \<open>Alignment arithmetic\<close>

text \<open>
  \<open>is_power_of_two\<close> holds exactly of the powers of two: clearing the lowest set bit
  leaves nothing only when there is one set bit.
\<close>

lemma pow2_nat: "n \<noteq> 0 \<Longrightarrow> (n::nat) AND (n - 1) = 0 \<Longrightarrow> \<exists>k. n = 2 ^ k"
proof (induction n rule: less_induct)
  case (less n)
  show ?case
  proof (cases "even n")
    case True
    then obtain m where m: "n = 2 * m" by (auto elim: evenE)
    with less.prems have m0: "m \<noteq> 0" by simp
    have "n - 1 = 2 * (m - 1) + 1" using m m0 by simp
    then have "n AND (n - 1) = 2 * (m AND (m - 1))"
      using m by (subst and_nat_rec) simp
    with less.prems have "m AND (m - 1) = 0" by simp
    moreover have "m < n" using m m0 by simp
    ultimately obtain k where "m = 2 ^ k" using less.IH m0 by blast
    then have "n = 2 ^ Suc k" using m by simp
    then show ?thesis by blast
  next
    case False
    then obtain m where m: "n = 2 * m + 1" by (auto elim: oddE)
    then have "n AND (n - 1) = 2 * m" by (subst and_nat_rec) simp
    with less.prems have "m = 0" by simp
    then have "n = 2 ^ 0" using m by simp
    then show ?thesis by blast
  qed
qed

lemma is_power_of_two_exp:
  assumes "is_power_of_two v"
  obtains k where "k < 64" and "v = 2 ^ k" and "unat v = 2 ^ k"
proof -
  from assms have v0: "v \<noteq> 0" and z: "v AND (v - 1) = 0"
    by (simp_all add: is_power_of_two_def)
  have "unat (v AND (v - 1)) = unat v AND (unat v - 1)"
    using v0 by (simp add: unsigned_and_eq unat_minus_one)
  with z have "unat v AND (unat v - 1) = 0" by simp
  moreover have "unat v \<noteq> 0" using v0 by (simp add: unat_eq_0)
  ultimately obtain k where k: "unat v = 2 ^ k" using pow2_nat by blast
  have "unat v < 2 ^ LENGTH(64)" by (rule unsigned_less)
  with k have "(2::nat) ^ k < 2 ^ LENGTH(64)" by simp
  then have "k < LENGTH(64)" by (rule power_less_imp_less_exp [rotated]) simp
  then have k64: "k < 64" by simp
  have "v = of_nat (unat v)" by simp
  also have "\<dots> = 2 ^ k" unfolding k by simp
  finally show thesis using that k64 k by blast
qed

lemma unat_and_not_mask:
  fixes w :: "64 word"
  shows "unat (w AND NOT (mask k)) = unat w - unat w mod 2 ^ k"
proof -
  have eq: "w AND NOT (mask k) = push_bit k (drop_bit k w)"
    by (rule bit_eqI) (auto simp: bit_simps)
  have id: "push_bit k (drop_bit k w) + take_bit k w = w"
    by (rule bits_ident)
  then have "push_bit k (drop_bit k w) = w - take_bit k w"
    by (simp add: algebra_simps)
  moreover have tb: "unat (take_bit k w) = unat w mod 2 ^ k"
    by (simp only: unsigned_take_bit_eq) (simp only: take_bit_eq_mod)
  moreover from tb have "take_bit k w \<le> w"
    by (simp only: word_le_nat_alt mod_less_eq_dividend)
  ultimately have "unat (push_bit k (drop_bit k w)) = unat w - unat w mod 2 ^ k"
    by (simp only: unat_sub)
  then show ?thesis
    by (simp only: eq)
qed

lemma align_up_nat_bounds:
  assumes "0 < n"
  shows "x \<le> align_up_nat x n" and "align_up_nat x n < x + n" and "align_up_nat x n mod n = 0"
proof -
  have e: "align_up_nat x n = (x + n - 1) - (x + n - 1) mod n"
    by (simp add: align_up_nat_def minus_mod_eq_div_mult)
  have "(x + n - 1) mod n < n" using assms by simp
  then show "x \<le> align_up_nat x n" using assms unfolding e by linarith
  show "align_up_nat x n < x + n" using assms unfolding e by linarith
  show "align_up_nat x n mod n = 0" by (simp add: align_up_nat_def)
qed

lemma unat_align_address:
  assumes "is_power_of_two al"
  shows "align_up_nat (unat a) (unat al) < 2 ^ 64 \<Longrightarrow>
           unat (align_address a al) = align_up_nat (unat a) (unat al)"
    and "2 ^ 64 \<le> align_up_nat (unat a) (unat al) \<Longrightarrow> align_address a al = 0"
proof -
  from assms obtain k where k: "k < 64" "al = 2 ^ k" "unat al = 2 ^ k"
    by (rule is_power_of_two_exp)
  let ?A = "unat a" and ?n = "(2::nat) ^ k"
  let ?s = "(?A + ?n - 1) mod 2 ^ 64"
  have n0: "0 < ?n" by simp
  have A: "?A < 2 ^ 64" using unsigned_less [of a] by simp
  have m: "al - 1 = mask k" by (simp add: k mask_eq_decr_exp)
  have "unat (a + al - 1) = ?s"
  proof -
    have e: "a + al - 1 = a + (al - 1)" by simp
    have al0: "al \<noteq> 0" using assms by (simp add: is_power_of_two_def)
    have "unat (al - 1) = ?n - 1"
      using k(3) al0 by (simp add: unat_minus_one)
    then have "unat (a + (al - 1)) = (?A + (?n - 1)) mod 2 ^ LENGTH(64)"
      by (simp only: unat_word_ariths(1))
    moreover have "?A + (?n - 1) = ?A + ?n - 1" by simp
    ultimately show ?thesis unfolding e by simp
  qed
  then have r: "unat (align_address a al) = ?s - ?s mod ?n"
    by (simp add: align_address_def m unat_and_not_mask)
  have dv: "?n dvd (2::nat) ^ 64" by (rule le_imp_power_dvd) (use k in simp)
  show "unat (align_address a al) = align_up_nat (unat a) (unat al)"
    if "align_up_nat (unat a) (unat al) < 2 ^ 64"
  proof -
    from that have lt: "align_up_nat ?A ?n < 2 ^ 64" by (simp only: k(3))
    have "?A + ?n - 1 < 2 ^ 64"
    proof (rule ccontr)
      assume "\<not> ?thesis"
      then have ge: "2 ^ 64 \<le> ?A + ?n - 1" by simp
      from dv obtain q where q: "(2::nat) ^ 64 = ?n * q" by (auto elim: dvdE)
      have "q \<le> (?A + ?n - 1) div ?n"
        using ge q by (metis n0 div_le_mono nonzero_mult_div_cancel_left less_numeral_extra(3))
      then have "q * ?n \<le> align_up_nat ?A ?n"
        by (simp add: align_up_nat_def)
      with q lt show False by (simp add: mult.commute)
    qed
    then have "?s = ?A + ?n - 1" by simp
    then have "?s - ?s mod ?n = align_up_nat ?A ?n"
      by (simp add: align_up_nat_def minus_mod_eq_div_mult)
    with r show ?thesis
      by (simp only: k(3))
  qed
  show "align_address a al = 0" if "2 ^ 64 \<le> align_up_nat (unat a) (unat al)"
  proof -
    from that have ge: "2 ^ 64 \<le> align_up_nat ?A ?n" by (simp only: k(3))
    have "align_up_nat ?A ?n < ?A + ?n" using align_up_nat_bounds(2) [OF n0] .
    with ge have w: "2 ^ 64 \<le> ?A + ?n - 1" by simp
    have "?A + ?n - 1 < 2 * 2 ^ 64" using A k
      by (metis n0 add_less_mono less_imp_diff_less mult_2 power_strict_increasing_iff one_less_numeral_iff semiring_norm(76))
    then have "?s = ?A + ?n - 1 - 2 ^ 64" using w
      by (simp add: mod_if)
    then have "?s < ?n" using A w by linarith
    then have "?s - ?s mod ?n = 0" by simp
    with r show ?thesis by (simp add: unat_eq_0)
  qed
qed

section \<open>Arena properties\<close>

lemma arena_ok_unat:
  assumes "arena_ok a"
  shows "0 < unat (start_marker a)"
    and "unat (start_marker a + capacity a) = unat (start_marker a) + unat (capacity a)"
    and "unat (start_marker a) \<le> unat (active_marker a)"
    and "unat (active_marker a) \<le> unat (start_marker a) + unat (capacity a)"
    and "unat (start_marker a) + unat (capacity a) < 2 ^ 64"
proof -
  from assms have s0: "start_marker a \<noteq> 0"
    and nw: "unat (start_marker a) + unat (capacity a) < 2 ^ 64"
    and lo: "start_marker a \<le> active_marker a"
    and hi: "active_marker a \<le> start_marker a + capacity a"
    by (simp_all add: arena_ok_def in_bounds_def)
  show "0 < unat (start_marker a)" using s0 by (simp add: unat_gt_0)
  show e: "unat (start_marker a + capacity a) = unat (start_marker a) + unat (capacity a)"
    using nw by (simp add: unat_add_lem [THEN iffD1])
  show "unat (start_marker a) \<le> unat (active_marker a)"
    using lo by (simp add: word_le_nat_alt)
  show "unat (active_marker a) \<le> unat (start_marker a) + unat (capacity a)"
    using hi e by (simp add: word_le_nat_alt)
  show "unat (start_marker a) + unat (capacity a) < 2 ^ 64" by (rule nw)
qed

lemma alloc_cases:
  fixes a :: stack_allocator and sz alignment :: size_type
  assumes ok: "arena_ok a"
  defines "R \<equiv> align_up_nat (unat (active_marker a)) (unat alignment)"
  shows "alloc a sz alignment =
           (if sz = 0 \<or> \<not> is_power_of_two alignment \<or> alignment > capacity a \<or>
               R + unat sz > unat (start_marker a) + unat (capacity a)
            then (0, a)
            else (of_nat R, a\<lparr>active_marker := of_nat (R + unat sz)\<rparr>))"
proof -
  note u = arena_ok_unat [OF ok]
  let ?S = "unat (start_marker a)" and ?C = "unat (capacity a)"
  let ?A = "unat (active_marker a)"
  show ?thesis
  proof (cases "sz = 0 \<or> \<not> is_power_of_two alignment \<or> alignment > capacity a")
    case True
    then show ?thesis by (auto simp: alloc_def)
  next
    case False
    then have sz0: "sz \<noteq> 0" and p2: "is_power_of_two alignment"
      and al: "alignment \<le> capacity a" by auto
    from p2 have n0: "0 < unat alignment"
      by (simp add: is_power_of_two_def unat_gt_0)
    have AR: "?A \<le> R" unfolding R_def by (rule align_up_nat_bounds(1) [OF n0])
    show ?thesis
    proof (cases "sz > capacity a")
      case True
      then have "?C < unat sz" by (simp add: word_less_nat_alt)
      with AR u(3) have "R + unat sz > ?S + ?C" by linarith
      with True show ?thesis by (simp add: alloc_def)
    next
      case szle: False
      then have szC: "unat sz \<le> ?C" by (simp add: word_le_nat_alt not_less)
      have "sz \<le> start_marker a + capacity a"
        using szC u(2) by (simp add: word_le_nat_alt)
      then have lv: "unat (start_marker a + capacity a - sz) = ?S + ?C - unat sz"
        by (simp add: unat_sub u(2))
      show ?thesis
      proof (cases "R < 2 ^ 64")
        case wrap: False
        then have "align_address (active_marker a) alignment = 0"
          unfolding R_def using unat_align_address(2) [OF p2] by simp
        moreover have "(0::64 word) < start_marker a"
          using u(1) by (simp add: word_less_nat_alt)
        moreover have "R + unat sz > ?S + ?C" using wrap u(5) by linarith
        ultimately show ?thesis using False szle by (simp add: alloc_def)
      next
        case nowrap: True
        then have ua: "unat (align_address (active_marker a) alignment) = R"
          unfolding R_def using unat_align_address(1) [OF p2] by simp
        then have aeq: "align_address (active_marker a) alignment = of_nat R"
          by (metis of_nat_unat ucast_id)
        have nlt: "\<not> align_address (active_marker a) alignment < start_marker a"
          using ua AR u(3) by (simp add: word_less_nat_alt)
        have gt: "align_address (active_marker a) alignment > start_marker a + capacity a - sz
                  \<longleftrightarrow> R + unat sz > ?S + ?C"
          using ua lv szC by (simp add: word_less_nat_alt) linarith
        have "of_nat R + sz = (of_nat (R + unat sz) :: 64 word)" by simp
        then show ?thesis
          using False szle nlt gt aeq by (simp add: alloc_def Let_def)
      qed
    qed
  qed
qed

lemma unat_of_nat64: "n < 2 ^ 64 \<Longrightarrow> unat (of_nat n :: 64 word) = n"
  by (simp add: unat_of_nat)

lemma arena_ok_cong:
  "start_marker b = start_marker a \<Longrightarrow> capacity b = capacity a \<Longrightarrow>
   active_marker b = active_marker a \<Longrightarrow> arena_ok b = arena_ok a"
  by (simp add: arena_ok_def in_bounds_def)

lemma block_ok_cong:
  "start_marker b = start_marker a \<Longrightarrow> capacity b = capacity a \<Longrightarrow> block_ok b r = block_ok a r"
  by (cases r) simp

lemma alloc_frame:
  "start_marker (snd (alloc a sz al)) = start_marker a"
  "capacity (snd (alloc a sz al)) = capacity a"
  "(snd (alloc a sz al))\<lparr>active_marker := x\<rparr> = a\<lparr>active_marker := x\<rparr>"
  by (simp_all add: alloc_def Let_def)

lemma alloc_ok:
  assumes ok: "arena_ok a" and al: "alloc a sz alignment = (p, a')"
  shows "arena_ok a'" and "p \<noteq> 0 \<Longrightarrow> block_ok a (p, sz, alignment)"
proof -
  note u = arena_ok_unat [OF ok]
  let ?R = "align_up_nat (unat (active_marker a)) (unat alignment)"
  let ?S = "unat (start_marker a)" and ?C = "unat (capacity a)"
  note c = alloc_cases [OF ok, of sz alignment]
  show "arena_ok a'"
  proof (cases "p = 0 \<and> a' = a")
    case True
    with ok show ?thesis by simp
  next
    case False
    with al c have p2: "is_power_of_two alignment"
      and fit: "?R + unat sz \<le> ?S + ?C"
      and a': "a' = a\<lparr>active_marker := of_nat (?R + unat sz)\<rparr>"
      by (auto split: if_splits)
    from p2 have n0: "0 < unat alignment"
      by (simp add: is_power_of_two_def unat_gt_0)
    have AR: "unat (active_marker a) \<le> ?R" by (rule align_up_nat_bounds(1) [OF n0])
    have "?R + unat sz < 2 ^ 64" using fit u(5) by linarith
    then have un: "unat (of_nat (?R + unat sz) :: 64 word) = ?R + unat sz"
      by (rule unat_of_nat64)
    have "?S \<le> ?R + unat sz" using AR u(3) by linarith
    with un fit u ok show ?thesis
      by (simp add: a' arena_ok_def in_bounds_def word_le_nat_alt)
  qed
  show "block_ok a (p, sz, alignment)" if "p \<noteq> 0"
  proof -
    from that al c have p2: "is_power_of_two alignment"
      and fit: "?R + unat sz \<le> ?S + ?C"
      and p: "p = of_nat ?R"
      by (auto split: if_splits)
    from p2 have n0: "0 < unat alignment"
      by (simp add: is_power_of_two_def unat_gt_0)
    have AR: "unat (active_marker a) \<le> ?R" by (rule align_up_nat_bounds(1) [OF n0])
    have "?R < 2 ^ 64" using fit u(5) by linarith
    then have up: "unat p = ?R" unfolding p by (rule unat_of_nat64)
    have "unat (p mod alignment) = unat p mod unat alignment" by (rule unat_mod)
    also have "\<dots> = 0" unfolding up by (rule align_up_nat_bounds(3) [OF n0])
    finally have "p mod alignment = 0" by (simp add: unat_eq_0)
    moreover have "start_marker a \<le> p" using up AR u(3) by (simp add: word_le_nat_alt)
    ultimately show ?thesis using p2 fit up by simp
  qed
qed

lemma reset_ok: "arena_ok a \<Longrightarrow> arena_ok (reset a)"
  by (simp add: reset_def arena_ok_def in_bounds_def word_le_nat_alt unat_add_lem [THEN iffD1])

lemma restore_ok: "arena_ok a \<Longrightarrow> arena_ok (snd (restore_checkpoint a c))"
  by (simp add: restore_checkpoint_def arena_ok_def in_bounds_def not_less)

lemma restore_frame:
  "start_marker (snd (restore_checkpoint a c)) = start_marker a"
  "capacity (snd (restore_checkpoint a c)) = capacity a"
  "(snd (restore_checkpoint a c))\<lparr>active_marker := x\<rparr> = a\<lparr>active_marker := x\<rparr>"
  by (simp_all add: restore_checkpoint_def)

lemma run_arena_frame:
  "start_marker (snd (run_arena a ops)) = start_marker a \<and>
   capacity (snd (run_arena a ops)) = capacity a \<and>
   (snd (run_arena a ops))\<lparr>active_marker := x\<rparr> = a\<lparr>active_marker := x\<rparr>"
proof (induction a ops rule: run_arena.induct)
  case (1 a)
  show ?case by simp
next
  case (2 a sz alignment ops)
  obtain p a' where al: "alloc a sz alignment = (p, a')" by (cases "alloc a sz alignment")
  obtain rs a'' where r: "run_arena a' ops = (rs, a'')" by (cases "run_arena a' ops")
  from alloc_frame [where a = a and sz = sz and al = alignment] al
  have f: "start_marker a' = start_marker a" "capacity a' = capacity a"
    "a'\<lparr>active_marker := x\<rparr> = a\<lparr>active_marker := x\<rparr>" by simp_all
  from "2.IH" [OF al [symmetric]] r
  have "start_marker a'' = start_marker a'" "capacity a'' = capacity a'"
    "a''\<lparr>active_marker := x\<rparr> = a'\<lparr>active_marker := x\<rparr>" by simp_all
  then show ?case using al r f by simp
next
  case (3 a ops)
  then show ?case by (simp add: reset_def)
next
  case (4 a checkpoint ops)
  then show ?case by (simp add: restore_frame)
qed

lemma ctor_arena_ok:
  assumes "StackAllocator_ctor cap memory = Inr a" and "unat memory + unat cap < 2 ^ 64"
  shows "arena_ok a"
  using assms
  by (auto simp: StackAllocator_ctor_def arena_ok_def in_bounds_def word_le_nat_alt
        unat_add_lem [THEN iffD1] split: if_splits)

text \<open>
  C3. Along every sequence of calls (allocations with any arguments, resets, restores)
  on an allocator over a real buffer, every block that \<open>alloc\<close> hands out is for a
  power-of-two alignment, starts at an address \<open>a\<close> with \<open>a % alignment == 0\<close> and lies
  within \<open>[base, base + capacity)\<close>; and after every call \<open>base \<le> cursor \<le> base +
  capacity\<close> holds, while base and capacity never change.
\<close>

theorem C3_arena_invariant:
  assumes "arena_ok a" and "run_arena a ops = (rs, a')"
  shows "list_all (block_ok a) rs \<and> arena_ok a' \<and>
         start_marker a' = start_marker a \<and> capacity a' = capacity a"
  using assms
proof (induction a ops arbitrary: rs a' rule: run_arena.induct)
  case (1 a)
  then show ?case by simp
next
  case (2 a sz alignment ops)
  obtain p b where al: "alloc a sz alignment = (p, b)" by (cases "alloc a sz alignment")
  obtain rs' b' where r: "run_arena b ops = (rs', b')" by (cases "run_arena b ops")
  have okb: "arena_ok b" by (rule alloc_ok(1) [OF "2.prems"(1) al])
  have fr: "start_marker b = start_marker a" "capacity b = capacity a"
    using alloc_frame(1,2) [where a = a and sz = sz and al = alignment] al by simp_all
  from "2.IH" [OF al [symmetric] okb r]
  have ih: "list_all (block_ok b) rs'" "arena_ok b'"
    "start_marker b' = start_marker b" "capacity b' = capacity b" by simp_all
  have "list_all (block_ok a) rs'"
    using ih(1) block_ok_cong [OF fr] by (simp add: list_all_iff)
  moreover have "p \<noteq> 0 \<Longrightarrow> block_ok a (p, sz, alignment)"
    by (rule alloc_ok(2) [OF "2.prems"(1) al])
  moreover from "2.prems"(2) al r
  have "rs = (if p = 0 then rs' else (p, sz, alignment) # rs')" "a' = b'" by simp_all
  ultimately show ?case using ih fr by (simp del: block_ok.simps)
next
  case (3 a ops)
  from "3.IH" [OF reset_ok [OF "3.prems"(1)]] "3.prems"(2)
  have "list_all (block_ok (reset a)) rs \<and> arena_ok a' \<and>
        start_marker a' = start_marker (reset a) \<and> capacity a' = capacity (reset a)"
    by simp
  moreover have "block_ok (reset a) = block_ok a"
    by (rule ext, rule block_ok_cong) (simp_all add: reset_def)
  ultimately show ?case by (simp add: reset_def)
next
  case (4 a checkpoint ops)
  from "4.IH" [OF restore_ok [OF "4.prems"(1)]] "4.prems"(2)
  have "list_all (block_ok (snd (restore_checkpoint a checkpoint))) rs \<and> arena_ok a' \<and>
        start_marker a' = start_marker (snd (restore_checkpoint a checkpoint)) \<and>
        capacity a' = capacity (snd (restore_checkpoint a checkpoint))"
    by simp
  moreover have "block_ok (snd (restore_checkpoint a checkpoint)) = block_ok a"
    by (rule ext, rule block_ok_cong) (simp_all add: restore_frame)
  ultimately show ?case by (simp add: restore_frame)
qed

theorem C3_arena_invariant_witness:
  "arena_ok \<lparr>start_marker = 4096, active_marker = 4099, capacity = 64, owns_memory = True\<rparr> \<and>
   run_arena \<lparr>start_marker = 4096, active_marker = 4099, capacity = 64, owns_memory = True\<rparr>
       [Alloc 8 8, Alloc 3 1, Alloc 0 8, Alloc 8 3, Reset, Alloc 100 16, Alloc 16 16,
        Restore 4100, Restore 5000]
     = ([(4104, 8, 8), (4112, 3, 1), (4096, 16, 16)],
        \<lparr>start_marker = 4096, active_marker = 4100, capacity = 64, owns_memory = True\<rparr>) \<and>
   list_all (block_ok \<lparr>start_marker = 4096, active_marker = 4099, capacity = 64,
                       owns_memory = True\<rparr>)
     [(4104, 8, 8), (4112, 3, 1), (4096, 16, 16)] \<and>
   arena_ok \<lparr>start_marker = 4096, active_marker = 4100, capacity = 64, owns_memory = True\<rparr>"
proof -
  let ?a = "\<lparr>start_marker = 4096, active_marker = 4099, capacity = 64, owns_memory = True\<rparr>"
  let ?b = "\<lparr>start_marker = 4096, active_marker = 4100, capacity = 64, owns_memory = True\<rparr>"
  let ?rs = "[(4104, 8, 8), (4112, 3, 1), (4096, 16, 16)] :: (64 word \<times> 64 word \<times> 64 word) list"
  have h1: "arena_ok ?a" by (simp add: arena_ok_def in_bounds_def)
  have h2: "run_arena ?a [Alloc 8 8, Alloc 3 1, Alloc 0 8, Alloc 8 3, Reset, Alloc 100 16,
              Alloc 16 16, Restore 4100, Restore 5000] = (?rs, ?b)"
    by (simp add: alloc_def is_power_of_two_def align_address_def reset_def
          restore_checkpoint_def)
  from C3_arena_invariant [OF h1 h2]
  have c: "list_all (block_ok ?a) ?rs" "arena_ok ?b" by blast+
  from h1 h2 c show ?thesis by (intro conjI) assumption+
qed

text \<open>
  C4. On an allocator over a real buffer, \<open>alloc\<close> returns the null pointer exactly
  when \<open>size == 0\<close>, or the alignment is not a power of two, or the alignment exceeds
  the capacity, or the block placed at the aligned cursor would end behind
  \<open>base + capacity\<close> (which includes every size above the capacity); and then the
  allocator, so \<open>bytes_used()\<close>, is unchanged. \<open>alloc\<close> has no failure branch: it
  cannot throw.
\<close>

theorem C4_alloc_no_space:
  fixes a :: stack_allocator and sz alignment :: size_type
  assumes "arena_ok a"
  shows "(fst (alloc a sz alignment) = 0 \<longleftrightarrow>
            (sz = 0 \<or> \<not> is_power_of_two alignment \<or> alignment > capacity a \<or>
             align_up_nat (unat (active_marker a)) (unat alignment) + unat sz
               > unat (start_marker a) + unat (capacity a))) \<and>
         (fst (alloc a sz alignment) = 0 \<longrightarrow>
            snd (alloc a sz alignment) = a \<and>
            bytes_used (snd (alloc a sz alignment)) = bytes_used a)"
proof -
  note u = arena_ok_unat [OF assms]
  let ?R = "align_up_nat (unat (active_marker a)) (unat alignment)"
  let ?fail = "sz = 0 \<or> \<not> is_power_of_two alignment \<or> alignment > capacity a \<or>
               ?R + unat sz > unat (start_marker a) + unat (capacity a)"
  note c = alloc_cases [OF assms, of sz alignment]
  show ?thesis
  proof (cases ?fail)
    case True
    with c have "alloc a sz alignment = (0, a)" by (simp only: if_True)
    with True show ?thesis by simp
  next
    case False
    with c have r: "alloc a sz alignment = (of_nat ?R, a\<lparr>active_marker := of_nat (?R + unat sz)\<rparr>)"
      by (simp only: if_False)
    from False have p2: "is_power_of_two alignment"
      and fit: "?R + unat sz \<le> unat (start_marker a) + unat (capacity a)" by auto
    from p2 have n0: "0 < unat alignment"
      by (simp add: is_power_of_two_def unat_gt_0)
    have AR: "unat (active_marker a) \<le> ?R" by (rule align_up_nat_bounds(1) [OF n0])
    have "?R < 2 ^ 64" using fit u(5) by linarith
    then have "unat (of_nat ?R :: 64 word) = ?R" by (rule unat_of_nat64)
    moreover have "0 < ?R" using AR u(1) u(3) by linarith
    ultimately have "(of_nat ?R :: 64 word) \<noteq> 0" by (metis unat_0 less_numeral_extra(3))
    with r False show ?thesis by simp
  qed
qed

theorem C4_alloc_no_space_witness:
  "arena_ok \<lparr>start_marker = 4096, active_marker = 4099, capacity = 64, owns_memory = True\<rparr> \<and>
   fst (alloc \<lparr>start_marker = 4096, active_marker = 4099, capacity = 64, owns_memory = True\<rparr>
          60 8) = 0 \<and>
   snd (alloc \<lparr>start_marker = 4096, active_marker = 4099, capacity = 64, owns_memory = True\<rparr>
          60 8)
     = \<lparr>start_marker = 4096, active_marker = 4099, capacity = 64, owns_memory = True\<rparr>"
proof -
  let ?a = "\<lparr>start_marker = 4096, active_marker = 4099, capacity = 64, owns_memory = True\<rparr>"
  have h: "arena_ok ?a" by (simp add: arena_ok_def in_bounds_def)
  have f: "align_up_nat (unat (active_marker ?a)) (unat (8::64 word)) + unat (60::64 word)
             > unat (start_marker ?a) + unat (capacity ?a)"
    by (simp add: align_up_nat_def)
  from C4_alloc_no_space [OF h, of 60 8] f
  have z: "fst (alloc ?a 60 8) = 0" by blast
  with C4_alloc_no_space [OF h, of 60 8]
  have s: "snd (alloc ?a 60 8) = ?a" by blast
  from h z s show ?thesis by (intro conjI) assumption+
qed

text \<open>
  C5. Checkpoint round trip: a checkpoint taken by \<open>save_checkpoint\<close> on an allocator
  whose cursor is in bounds, then any sequence of calls (allocations, and resets and
  restores as well), then \<open>restore_checkpoint\<close> of that checkpoint: the restore succeeds
  and gives back the allocator as it was when the checkpoint was taken, so
  \<open>bytes_used()\<close> is what it was. With no call in between, save followed by restore
  changes nothing.
\<close>

theorem C5_checkpoint_round_trip:
  assumes "in_bounds a"
  shows "restore_checkpoint (snd (run_arena a ops)) (save_checkpoint a) = (Inr (), a) \<and>
         bytes_used (snd (restore_checkpoint (snd (run_arena a ops)) (save_checkpoint a)))
           = bytes_used a \<and>
         restore_checkpoint a (save_checkpoint a) = (Inr (), a)"
proof -
  have g: "restore_checkpoint (snd (run_arena a ops)) (save_checkpoint a) = (Inr (), a)" for ops
  proof -
    let ?b = "snd (run_arena a ops)"
    from run_arena_frame [of a ops "active_marker a"]
    have f: "start_marker ?b = start_marker a" "capacity ?b = capacity a"
      "?b\<lparr>active_marker := active_marker a\<rparr> = a" by simp_all
    from assms have "\<not> (active_marker a < start_marker a \<or>
                         active_marker a > start_marker a + capacity a)"
      by (simp add: in_bounds_def not_less)
    then show ?thesis
      by (simp add: restore_checkpoint_def save_checkpoint_def f)
  qed
  from g [of ops] g [of "[]"] show ?thesis by simp
qed

theorem C5_checkpoint_round_trip_witness:
  "in_bounds \<lparr>start_marker = 4096, active_marker = 4099, capacity = 64, owns_memory = True\<rparr> \<and>
   restore_checkpoint
       (snd (run_arena
          \<lparr>start_marker = 4096, active_marker = 4099, capacity = 64, owns_memory = True\<rparr>
          [Alloc 8 8, Alloc 3 1]))
       (save_checkpoint
          \<lparr>start_marker = 4096, active_marker = 4099, capacity = 64, owns_memory = True\<rparr>)
     = (Inr (), \<lparr>start_marker = 4096, active_marker = 4099, capacity = 64, owns_memory = True\<rparr>) \<and>
   bytes_used (snd (run_arena
          \<lparr>start_marker = 4096, active_marker = 4099, capacity = 64, owns_memory = True\<rparr>
          [Alloc 8 8, Alloc 3 1])) = 19"
proof -
  let ?a = "\<lparr>start_marker = 4096, active_marker = 4099, capacity = 64, owns_memory = True\<rparr>"
  have h: "in_bounds ?a" by (simp add: in_bounds_def)
  from C5_checkpoint_round_trip [OF h, of "[Alloc 8 8, Alloc 3 1]"]
  have r: "restore_checkpoint (snd (run_arena ?a [Alloc 8 8, Alloc 3 1])) (save_checkpoint ?a)
             = (Inr (), ?a)" by (rule conjunct1)
  have u: "bytes_used (snd (run_arena ?a [Alloc 8 8, Alloc 3 1])) = 19"
    by (simp add: alloc_def is_power_of_two_def align_address_def bytes_used_def)
  from h r u show ?thesis by (intro conjI) assumption+
qed

text \<open>
  C6. When \<open>base + capacity\<close> is an address (the sum does not wrap around),
  \<open>restore_checkpoint\<close> succeeds and sets the cursor to the checkpoint when the
  checkpoint lies within \<open>[base, base + capacity]\<close>, and fails with
  \<open>InvalidCheckpoint\<close> exactly when it lies outside; on failure the allocator is
  unchanged.
\<close>

theorem C6_restore_checkpoint:
  assumes "unat (start_marker a) + unat (capacity a) < 2 ^ 64"
  shows "restore_checkpoint a c =
           (if unat (start_marker a) \<le> unat c \<and>
               unat c \<le> unat (start_marker a) + unat (capacity a)
            then (Inr (), a\<lparr>active_marker := c\<rparr>)
            else (Inl InvalidCheckpoint, a))"
proof -
  have "unat (start_marker a + capacity a) = unat (start_marker a) + unat (capacity a)"
    using assms by (simp add: unat_add_lem [THEN iffD1])
  then show ?thesis
    by (auto simp: restore_checkpoint_def word_less_nat_alt)
qed

theorem C6_restore_checkpoint_witness:
  "unat (start_marker \<lparr>start_marker = 4096, active_marker = 4099, capacity = 64,
                        owns_memory = True\<rparr>)
     + unat (capacity \<lparr>start_marker = 4096, active_marker = 4099, capacity = 64,
                        owns_memory = True\<rparr>) < 2 ^ 64 \<and>
   restore_checkpoint
       \<lparr>start_marker = 4096, active_marker = 4099, capacity = 64, owns_memory = True\<rparr> 4160
     = (Inr (), \<lparr>start_marker = 4096, active_marker = 4160, capacity = 64, owns_memory = True\<rparr>) \<and>
   restore_checkpoint
       \<lparr>start_marker = 4096, active_marker = 4099, capacity = 64, owns_memory = True\<rparr> 4161
     = (Inl InvalidCheckpoint,
        \<lparr>start_marker = 4096, active_marker = 4099, capacity = 64, owns_memory = True\<rparr>)"
proof -
  let ?a = "\<lparr>start_marker = 4096, active_marker = 4099, capacity = 64, owns_memory = True\<rparr>"
  have h: "unat (start_marker ?a) + unat (capacity ?a) < 2 ^ 64" by simp
  from C6_restore_checkpoint [OF h, of 4160]
  have r1: "restore_checkpoint ?a 4160 = (Inr (), ?a\<lparr>active_marker := 4160\<rparr>)" by simp
  from C6_restore_checkpoint [OF h, of 4161]
  have r2: "restore_checkpoint ?a 4161 = (Inl InvalidCheckpoint, ?a)" by simp
  from h r1 r2 show ?thesis by simp
qed

text \<open>
  C7 as stated: the buffer constructor fails exactly when the pointer is null, the size
  is zero, or the buffer is too small to hold a minimally aligned region after the
  adjustment. A pointer that is already aligned is accepted with any non-zero size: the
  one-byte buffer at address 4096 is too small for a 16-byte region, and the constructor
  succeeds with capacity 1.
\<close>

theorem C7_counterexample:
  "too_small_for_aligned_region 16 4096 1 \<and>
   StackAllocator_ctor_buffer 16 4096 1 =
     Inr \<lparr>start_marker = 4096, active_marker = 4096, capacity = 1, owns_memory = False\<rparr>"
  by (simp add: too_small_for_aligned_region_def align_up_nat_def
        StackAllocator_ctor_buffer_def align_address_def)

lemma ctor_buffer_offset:
  fixes max_align memory sz :: "64 word"
  assumes p2: "is_power_of_two max_align"
    and small: "unat max_align < 2 ^ 63"
    and buf: "unat memory + unat sz < 2 ^ 64"
    and m0: "memory \<noteq> 0"
  defines "off \<equiv> align_up_nat (unat memory) (unat max_align) - unat memory"
  defines "offset \<equiv> align_address memory max_align - memory"
  shows "offset \<noteq> 0 \<and> offset + max_align \<ge> sz \<longleftrightarrow> off \<noteq> 0 \<and> unat sz \<le> off + unat max_align"
    and "\<not> (off \<noteq> 0 \<and> unat sz \<le> off + unat max_align) \<Longrightarrow>
           offset = of_nat off \<and> align_address memory max_align = memory + of_nat off \<and>
           unat (memory + of_nat off) = unat memory + off \<and>
           unat (sz - of_nat off) = unat sz - off"
proof -
  let ?A = "unat memory" and ?n = "unat max_align"
  let ?R = "align_up_nat ?A ?n"
  from p2 have n0: "0 < ?n" by (simp add: is_power_of_two_def unat_gt_0)
  note b = align_up_nat_bounds [OF n0, of ?A]
  have A0: "0 < ?A" using m0 by (simp add: unat_gt_0)
  have offn: "off < ?n" unfolding off_def using b by linarith
  have c: "(offset \<noteq> 0 \<and> offset + max_align \<ge> sz \<longleftrightarrow> off \<noteq> 0 \<and> unat sz \<le> off + unat max_align) \<and>
        (\<not> (off \<noteq> 0 \<and> unat sz \<le> off + unat max_align) \<longrightarrow>
           offset = of_nat off \<and> align_address memory max_align = memory + of_nat off \<and>
           unat (memory + of_nat off) = unat memory + off \<and>
           unat (sz - of_nat off) = unat sz - off)"
  proof (cases "?R < 2 ^ 64")
    case True
    then have us: "unat (align_address memory max_align) = ?R"
      by (rule unat_align_address(1) [OF p2])
    then have "memory \<le> align_address memory max_align"
      using b(1) by (simp add: word_le_nat_alt)
    then have uo: "unat offset = off"
      unfolding offset_def off_def by (simp add: unat_sub us)
    then have oo: "offset = of_nat off" by (metis of_nat_unat ucast_id)
    have "unat offset + ?n < 2 ^ 64" using uo offn small by simp
    then have sum: "unat (offset + max_align) = off + ?n"
      using uo by (simp add: unat_add_lem [THEN iffD1])
    have z: "offset \<noteq> 0 \<longleftrightarrow> off \<noteq> 0" using uo by (metis unat_eq_0)
    have "align_address memory max_align = memory + offset"
      by (simp add: offset_def)
    then have st: "align_address memory max_align = memory + of_nat off"
      by (simp only: oo)
    have ust: "unat (memory + of_nat off) = ?A + off"
      using us st b(1) by (simp add: off_def)
    have "unat (sz - of_nat off) = unat sz - off" if "off \<le> unat sz"
    proof -
      from that uo oo have "of_nat off \<le> sz" by (simp add: word_le_nat_alt)
      then show ?thesis using uo oo by (simp add: unat_sub)
    qed
    then show ?thesis using z sum oo st ust by (auto simp: word_le_nat_alt)
  next
    case False
    then have ge: "2 ^ 64 \<le> ?R" by simp
    then have "align_address memory max_align = 0"
      by (rule unat_align_address(2) [OF p2])
    then have "offset = - memory" by (simp add: offset_def)
    moreover have "unat (- memory) = 2 ^ 64 - ?A"
      using unat_sub_if' [of 0 memory] A0 by simp
    ultimately have uo: "unat offset = 2 ^ 64 - ?A" by simp
    have "2 ^ 64 - ?A \<le> off" unfolding off_def using ge by linarith
    with offn have lt: "2 ^ 64 - ?A < ?n" by linarith
    then have "unat offset + ?n < 2 ^ 64" using uo small by simp
    then have sum: "unat (offset + max_align) = 2 ^ 64 - ?A + ?n"
      using uo by (simp add: unat_add_lem [THEN iffD1])
    have "?A < 2 ^ 64" using unsigned_less [of memory] by simp
    then have "0 < unat offset" using uo by simp
    then have "offset \<noteq> 0" by (simp add: unat_gt_0)
    moreover have "unat sz \<le> unat (offset + max_align)" using sum buf by linarith
    moreover have "off \<noteq> 0" "unat sz \<le> off + ?n"
      using \<open>2 ^ 64 - ?A \<le> off\<close> buf A0 by linarith+
    ultimately show ?thesis by (simp add: word_le_nat_alt)
  qed
  from c show "offset \<noteq> 0 \<and> offset + max_align \<ge> sz \<longleftrightarrow> off \<noteq> 0 \<and> unat sz \<le> off + unat max_align"
    by blast
  from c show "\<not> (off \<noteq> 0 \<and> unat sz \<le> off + unat max_align) \<Longrightarrow>
           offset = of_nat off \<and> align_address memory max_align = memory + of_nat off \<and>
           unat (memory + of_nat off) = unat memory + off \<and>
           unat (sz - of_nat off) = unat sz - off"
    by blast
qed

lemma ctor_buffer_cases:
  fixes max_align memory sz :: "64 word"
  assumes p2: "is_power_of_two max_align"
    and small: "unat max_align < 2 ^ 63"
    and buf: "unat memory + unat sz < 2 ^ 64"
  defines "off \<equiv> align_up_nat (unat memory) (unat max_align) - unat memory"
  shows "off < unat max_align \<and> (unat memory + off) mod unat max_align = 0 \<and>
         StackAllocator_ctor_buffer max_align memory sz =
           (if memory = 0 \<or> sz = 0 \<or> (off \<noteq> 0 \<and> unat sz \<le> off + unat max_align)
            then Inl InvalidArgument
            else Inr \<lparr>start_marker = memory + of_nat off, active_marker = memory + of_nat off,
                      capacity = sz - of_nat off, owns_memory = False\<rparr>) \<and>
         (if memory = 0 \<or> sz = 0 \<or> (off \<noteq> 0 \<and> unat sz \<le> off + unat max_align)
          then True
          else unat (memory + of_nat off) = unat memory + off \<and>
               unat (sz - of_nat off) = unat sz - off)"
proof -
  from p2 have n0: "0 < unat max_align" by (simp add: is_power_of_two_def unat_gt_0)
  note b = align_up_nat_bounds [OF n0, of "unat memory"]
  have 1: "off < unat max_align" unfolding off_def using b by linarith
  have "unat memory + off = align_up_nat (unat memory) (unat max_align)"
    unfolding off_def using b by linarith
  then have 2: "(unat memory + off) mod unat max_align = 0" using b(3) by simp
  show ?thesis
  proof (cases "memory = 0 \<or> sz = 0")
    case True
    then show ?thesis using 1 2 by (auto simp: StackAllocator_ctor_buffer_def)
  next
    case False
    then have m0: "memory \<noteq> 0" and s0: "sz \<noteq> 0" by auto
    note o = ctor_buffer_offset [OF p2 small buf m0, folded off_def]
    show ?thesis
    proof (cases "off \<noteq> 0 \<and> unat sz \<le> off + unat max_align")
      case True
      with o(1) have "align_address memory max_align - memory \<noteq> 0 \<and>
          sz \<le> align_address memory max_align - memory + max_align" by blast
      then show ?thesis using True 1 2 m0 s0
        by (simp add: StackAllocator_ctor_buffer_def Let_def)
    next
      case ok: False
      with o(1) have c: "\<not> (align_address memory max_align - memory \<noteq> 0 \<and>
          sz \<le> align_address memory max_align - memory + max_align)" by blast
      from o(2) [OF ok] have e: "align_address memory max_align - memory = of_nat off"
        "align_address memory max_align = memory + of_nat off"
        "unat (memory + of_nat off) = unat memory + off"
        "unat (sz - of_nat off) = unat sz - off" by blast+
      have "StackAllocator_ctor_buffer max_align memory sz =
              Inr \<lparr>start_marker = align_address memory max_align,
                    active_marker = align_address memory max_align,
                    capacity = sz - (align_address memory max_align - memory),
                    owns_memory = False\<rparr>"
        using c m0 s0 by (simp add: StackAllocator_ctor_buffer_def Let_def)
      also have "\<dots> = Inr \<lparr>start_marker = memory + of_nat off, active_marker = memory + of_nat off,
                      capacity = sz - of_nat off, owns_memory = False\<rparr>"
        by (simp add: e(2))
      finally show ?thesis using ok False 1 2 e(3,4) by simp
    qed
  qed
qed

text \<open>
  C7, amended. Let \<open>off\<close> be the distance from the pointer to the next address aligned
  to \<open>max_align\<close> (\<open>off < max_align\<close>). For a buffer that lies in the address space:
  the constructor fails with \<open>InvalidArgument\<close> when the pointer is null, or the size is
  zero, or the pointer is unaligned (\<open>off \<noteq> 0\<close>) and the buffer is too small to hold a
  minimally aligned region after the adjustment (\<open>size < off + max_align\<close>). It succeeds
  when the pointer is not null, the size is not zero and either the pointer is already
  aligned (whatever the size, also one too small for an aligned region) or more than
  \<open>max_align\<close> bytes remain (\<open>size > off + max_align\<close>); then the base is the pointer
  moved up by \<open>off\<close>, so it is aligned, the cursor is the base, the capacity is exactly
  \<open>size - off\<close>, and the buffer is not owned. Nothing is said of an unaligned pointer
  with exactly \<open>max_align\<close> bytes remaining (\<open>size = off + max_align\<close>).
\<close>

theorem C7_ctor_buffer:
  fixes max_align memory sz :: "64 word"
  assumes p2: "is_power_of_two max_align"
    and small: "unat max_align < 2 ^ 63"
    and buf: "unat memory + unat sz < 2 ^ 64"
  defines "off \<equiv> align_up_nat (unat memory) (unat max_align) - unat memory"
  shows "off < unat max_align \<and> (unat memory + off) mod unat max_align = 0 \<and>
         (if memory = 0 \<or> sz = 0 \<or>
             (off \<noteq> 0 \<and> too_small_for_aligned_region max_align memory sz)
          then StackAllocator_ctor_buffer max_align memory sz = Inl InvalidArgument
          else if off = 0 \<or> off + unat max_align < unat sz
          then StackAllocator_ctor_buffer max_align memory sz =
                 Inr \<lparr>start_marker = memory + of_nat off, active_marker = memory + of_nat off,
                      capacity = sz - of_nat off, owns_memory = False\<rparr> \<and>
               unat (memory + of_nat off) = unat memory + off \<and>
               unat (sz - of_nat off) = unat sz - off
          else True)"
proof -
  note c = ctor_buffer_cases [OF p2 small buf]
  have t: "too_small_for_aligned_region max_align memory sz \<longleftrightarrow> unat sz < off + unat max_align"
    by (simp add: too_small_for_aligned_region_def off_def)
  from c have 1: "off < unat max_align" and 2: "(unat memory + off) mod unat max_align = 0"
    by (simp_all add: off_def)
  show ?thesis
  proof (cases "memory = 0 \<or> sz = 0 \<or> (off \<noteq> 0 \<and> unat sz < off + unat max_align)")
    case True
    then have "memory = 0 \<or> sz = 0 \<or> (off \<noteq> 0 \<and> unat sz \<le> off + unat max_align)"
      by auto
    with c have "StackAllocator_ctor_buffer max_align memory sz = Inl InvalidArgument"
      by (simp add: off_def)
    with True 1 2 t show ?thesis by simp
  next
    case nf: False
    show ?thesis
    proof (cases "off = 0 \<or> off + unat max_align < unat sz")
      case True
      with nf have "\<not> (memory = 0 \<or> sz = 0 \<or> (off \<noteq> 0 \<and> unat sz \<le> off + unat max_align))"
        by auto
      with c have "StackAllocator_ctor_buffer max_align memory sz =
                 Inr \<lparr>start_marker = memory + of_nat off, active_marker = memory + of_nat off,
                      capacity = sz - of_nat off, owns_memory = False\<rparr> \<and>
               unat (memory + of_nat off) = unat memory + off \<and>
               unat (sz - of_nat off) = unat sz - off"
        by (simp add: off_def)
      with True nf 1 2 t show ?thesis by simp
    next
      case False
      with nf 1 2 t show ?thesis by simp
    qed
  qed
qed

theorem C7_ctor_buffer_witness:
  "is_power_of_two 16 \<and> unat (16::64 word) < 2 ^ 63 \<and>
   unat (4100::64 word) + unat (64::64 word) < 2 ^ 64 \<and>
   unat (4100::64 word) + unat (20::64 word) < 2 ^ 64 \<and>
   unat (4096::64 word) + unat (1::64 word) < 2 ^ 64 \<and>
   StackAllocator_ctor_buffer 16 4100 64
     = Inr \<lparr>start_marker = 4112, active_marker = 4112, capacity = 52, owns_memory = False\<rparr> \<and>
   StackAllocator_ctor_buffer 16 4100 20 = Inl InvalidArgument \<and>
   StackAllocator_ctor_buffer 16 4096 1
     = Inr \<lparr>start_marker = 4096, active_marker = 4096, capacity = 1, owns_memory = False\<rparr>"
proof -
  have h1: "is_power_of_two 16" by (simp add: is_power_of_two_def)
  have h2: "unat (16::64 word) < 2 ^ 63" by simp
  have h3: "unat (4100::64 word) + unat (64::64 word) < 2 ^ 64" by simp
  have h4: "unat (4100::64 word) + unat (20::64 word) < 2 ^ 64" by simp
  have h5: "unat (4096::64 word) + unat (1::64 word) < 2 ^ 64" by simp
  from C7_ctor_buffer [OF h1 h2 h3]
  have r1: "StackAllocator_ctor_buffer 16 4100 64
     = Inr \<lparr>start_marker = 4112, active_marker = 4112, capacity = 52, owns_memory = False\<rparr>"
    by (simp add: align_up_nat_def too_small_for_aligned_region_def)
  from C7_ctor_buffer [OF h1 h2 h4]
  have r2: "StackAllocator_ctor_buffer 16 4100 20 = Inl InvalidArgument"
    by (simp add: align_up_nat_def too_small_for_aligned_region_def)
  from C7_ctor_buffer [OF h1 h2 h5]
  have r3: "StackAllocator_ctor_buffer 16 4096 1
     = Inr \<lparr>start_marker = 4096, active_marker = 4096, capacity = 1, owns_memory = False\<rparr>"
    by (simp add: align_up_nat_def too_small_for_aligned_region_def)
  from h1 h2 h3 h4 h5 r1 r2 r3 show ?thesis by (intro conjI) assumption+
qed

lemma ctor_buffer_arena_ok:
  fixes max_align memory sz :: "64 word"
  assumes p2: "is_power_of_two max_align"
    and small: "unat max_align < 2 ^ 63"
    and buf: "unat memory + unat sz < 2 ^ 64"
    and r: "StackAllocator_ctor_buffer max_align memory sz = Inr a"
  shows "arena_ok a"
proof -
  let ?off = "align_up_nat (unat memory) (unat max_align) - unat memory"
  from r have m0: "memory \<noteq> 0" and s0: "sz \<noteq> 0"
    and c: "\<not> (align_address memory max_align - memory \<noteq> 0 \<and>
          sz \<le> align_address memory max_align - memory + max_align)"
    and a: "a = \<lparr>start_marker = align_address memory max_align,
                    active_marker = align_address memory max_align,
                    capacity = sz - (align_address memory max_align - memory),
                    owns_memory = False\<rparr>"
    by (auto simp: StackAllocator_ctor_buffer_def Let_def split: if_splits)
  note o = ctor_buffer_offset [OF p2 small buf m0]
  from o(1) c have ok: "\<not> (?off \<noteq> 0 \<and> unat sz \<le> ?off + unat max_align)" by blast
  from o(2) [OF ok] have e: "align_address memory max_align - memory = of_nat ?off"
    "align_address memory max_align = memory + of_nat ?off"
    "unat (memory + of_nat ?off) = unat memory + ?off"
    "unat (sz - of_nat ?off) = unat sz - ?off" by blast+
  have A0: "0 < unat memory" using m0 by (simp add: unat_gt_0)
  from ok have le: "?off \<le> unat sz" by linarith
  have us: "unat (start_marker a) = unat memory + ?off"
    and uc: "unat (capacity a) = unat sz - ?off"
    and act: "active_marker a = start_marker a"
    using e by (simp_all add: a)
  have "start_marker a \<noteq> 0" using us A0 by (metis unat_0 add_gr_0 less_numeral_extra(3))
  moreover have nw: "unat (start_marker a) + unat (capacity a) < 2 ^ 64"
    using us uc le buf by linarith
  moreover have "in_bounds a"
    using nw act by (simp add: in_bounds_def word_le_nat_alt unat_add_lem [THEN iffD1])
  ultimately show ?thesis by (simp add: arena_ok_def)
qed

end
